theory Spec2Isabelle
  imports Main
begin

section \<open>Data model of parse.go\<close>

text \<open>
  The Go string is a byte sequence and is modelled as \<open>string\<close> (a list of \<open>char\<close>).
  \<open>big.Int\<close> is an arbitrary-precision signed integer and is modelled as \<open>int\<close>.
\<close>

text \<open>\<open>supportedCountries\<close> (lines 17-22): a Go map used as a set.\<close>

definition supportedCountries :: "string \<rightharpoonup> unit" where
  "supportedCountries = [''AU'' \<mapsto> (), ''CA'' \<mapsto> (), ''GB'' \<mapsto> (), ''US'' \<mapsto> ()]"

text \<open>\<open>ip2locRec\<close> (lines 28-33).\<close>

record ip2locRec =
  ToIP :: int
  CountryCode :: string
  Region :: string
  City :: string

text \<open>
  The error values that travel over \<open>chErr\<close>. The three failures of the archive libraries
  are opaque to the program and are kept as constants: \<open>zip.NewReader\<close> (line 120),
  \<open>f.Open\<close> (line 129), \<open>r.Read\<close> with an error other than \<open>io.EOF\<close> (line 145).
  \<open>RecordError v\<close> is \<open>fmt.Errorf("Error with record: %v\n", v)\<close> of line 167.
\<close>

datatype error = ZipError | OpenError | CsvError | RecordError "string list"

text \<open>\<open>appError\<close> (lines 35-39).\<close>

record appError =
  Error :: error
  Message :: string
  Code :: int

section \<open>The library calls the parser makes\<close>

text \<open>
  \<open>big.Int.SetString(s, 10)\<close> of the Go standard library (math/big), at base 10: an
  optional sign \<open>+\<close> or \<open>-\<close>, then one or more digits 0-9; the whole string must be
  consumed (at base 10 no underscore and no prefix is accepted, a letter has a digit
  value of 10 or more and ends the number). \<open>None\<close> is \<open>ok = false\<close>.
\<close>

definition digit :: "char \<Rightarrow> nat option" where
  "digit c = (let n = (of_char c :: nat) in if 48 \<le> n \<and> n \<le> 57 then Some (n - 48) else None)"

fun scan :: "nat \<Rightarrow> string \<Rightarrow> nat option" where
  "scan acc [] = Some acc"
| "scan acc (c # cs) = (case digit c of None \<Rightarrow> None | Some d \<Rightarrow> scan (10 * acc + d) cs)"

definition mantissa :: "string \<Rightarrow> nat option" where
  "mantissa s = (if s = [] then None else scan 0 s)"

definition SetString :: "string \<Rightarrow> int option" where
  "SetString s =
     (case s of
        [] \<Rightarrow> None
      | c # cs \<Rightarrow>
          if c = CHR ''-'' then map_option (\<lambda>n. - int n) (mantissa cs)
          else if c = CHR ''+'' then map_option int (mantissa cs)
          else map_option int (mantissa s))"

text \<open>
  Indexing a Go slice: \<open>v[i]\<close> with \<open>i \<ge> len(v)\<close> is a run-time panic (index out of
  range). \<open>None\<close> is the panic.
\<close>

definition index :: "string list \<Rightarrow> nat \<Rightarrow> string option" where
  "index v i = (if i < length v then Some (v ! i) else None)"

section \<open>The body of the parser's loop\<close>

text \<open>
  Lines 165-182 of \<open>parser\<close>, for one row \<open>v\<close> taken from the queue, after the
  \<open>cancelled()\<close> check of line 162 returned false. The four ways the body ends:
  a panic on an index out of range, the error path of lines 167-169, the \<open>continue\<close>
  of line 172, and the \<open>append\<close> of line 182.
\<close>

datatype row_result = RPanic | RAbort error | RSkip | RAppend ip2locRec

definition parser_row :: "string list \<Rightarrow> row_result" where
  "parser_row v =
     (case index v 1 of
        None \<Rightarrow> RPanic
      | Some f1 \<Rightarrow>
          (case SetString f1 of
             None \<Rightarrow> RAbort (RecordError v)
           | Some ipNum \<Rightarrow>
               (case index v 2 of
                  None \<Rightarrow> RPanic
                | Some cc \<Rightarrow>
                    if cc = ''-'' then RSkip
                    else if supportedCountries cc \<noteq> None then
                      (case index v 4 of
                         None \<Rightarrow> RPanic
                       | Some r \<Rightarrow>
                           (case index v 5 of
                              None \<Rightarrow> RPanic
                            | Some c \<Rightarrow>
                                RAppend \<lparr>ToIP = ipNum, CountryCode = cc, Region = r, City = c\<rparr>))
                    else RAppend \<lparr>ToIP = ipNum, CountryCode = cc, Region = [], City = []\<rparr>)))"

section \<open>The archive as the reader sees it\<close>

text \<open>
  One call of \<open>r.Read()\<close> (line 145) returns a row or an error; the end of the list is
  \<open>io.EOF\<close>. With \<open>FieldsPerRecord = -1\<close> (line 139) a row has any number of fields.
\<close>

datatype csv_read = Rec "string list" | Fail

text \<open>
  An entry of the zip archive: its name, and what \<open>f.Open()\<close> followed by the csv
  reader yields (\<open>None\<close>: \<open>f.Open()\<close> fails). The body handed to \<open>reader\<close> is \<open>None\<close>
  when \<open>zip.NewReader\<close> fails and the list of entries otherwise.
\<close>

record zfile =
  fname :: string
  fopen :: "csv_read list option"

definition target :: string where
  "target = ''IPV6-COUNTRY-REGION-CITY.CSV''"

section \<open>One run of the pipeline: reader, parser and the waiting handler\<close>

text \<open>
  \<open>ip2locInit\<close> (lines 55-87), after a successful \<open>fetch\<close>, starts \<open>reader\<close> and
  \<open>parser\<close> as goroutines and waits in a \<open>select\<close>. The run is modelled as a transition
  system: each goroutine has a program counter, and one step is one channel operation
  or one \<open>cancelled()\<close> poll together with the local computation that follows it.
  The channels \<open>cancel\<close> and \<open>done\<close> are package-level variables that every call of
  \<open>ip2locInit\<close> makes anew (lines 64-65); the model is of one call.

  The program counters name the statement a goroutine is about to execute. For the
  reader: \<open>zip.NewReader\<close> (line 120), the head of the loop over the entries
  (line 127), the \<open>cancelled()\<close> poll followed by \<open>r.Read()\<close> (lines 142-153), the send
  of a row (line 154), the send of an error (lines 122, 131, 150), \<open>close(cancel)\<close>
  (lines 123, 132, 151), the deferred \<open>close(out)\<close> (line 118), and the end. For the
  parser: the receive of \<open>range in\<close> (line 161), the \<open>cancelled()\<close> poll followed by the
  loop body (lines 162-182), the send of an error (line 167), \<open>close(cancel)\<close> (line 168),
  the return without \<open>close(done)\<close> (lines 163, 169), and the end after \<open>close(done)\<close>
  (line 184). For the handler: the \<open>select\<close> (line 71), and its return with the
  \<open>appError\<close> or \<open>nil\<close> and the records it has encoded.
\<close>

datatype reader_pc =
    R_NewReader "zfile list option"
  | R_Range "zfile list"
  | R_Cancelled "csv_read list" "zfile list"
  | R_Send "string list" "csv_read list" "zfile list"
  | R_Abort error
  | R_CloseCancel
  | R_CloseOut
  | R_Exit

datatype parser_pc =
    P_Range
  | P_Cancelled "string list"
  | P_Abort error
  | P_CloseCancel
  | P_Return
  | P_Exit

datatype coord_pc =
    C_Select
  | C_Return "appError option" "ip2locRec list"

text \<open>
  The shared state. \<open>line\<close> is the buffered channel of line 61 with its closed flag;
  \<open>cancel_closed\<close> and \<open>done_closed\<close> are the two signal channels (a closed channel is a
  set signal); \<open>chErr\<close> is unbuffered and holds nothing: a send on it is pending while the
  sender's program counter is \<open>R_Abort\<close> or \<open>P_Abort\<close>. \<open>recs\<close> is the slice the parser
  appends to. \<open>crashed\<close> records a run-time panic, which ends the whole process.
  \<open>seen\<close> is a history variable with no counterpart in the source: the rows the parser
  has received so far; no step reads it.
\<close>

record state =
  rd :: reader_pc
  ps :: parser_pc
  co :: coord_pc
  line :: "string list list"
  line_closed :: bool
  cancel_closed :: bool
  done_closed :: bool
  recs :: "ip2locRec list"
  crashed :: bool
  seen :: "string list list"

definition capacity :: nat where
  "capacity = 500000"

definition init :: "zfile list option \<Rightarrow> state" where
  "init body =
     \<lparr>rd = R_NewReader body, ps = P_Range, co = C_Select, line = [], line_closed = False,
      cancel_closed = False, done_closed = False, recs = [], crashed = False, seen = []\<rparr>"

text \<open>
  \<open>reader\<close> (lines 117-158). \<open>None\<close>: the goroutine cannot move (it is blocked on a
  channel, or has returned). Closing a channel that is closed already is a panic.
\<close>

definition reader :: "state \<Rightarrow> state option" where
  "reader s =
     (case rd s of
        R_NewReader body \<Rightarrow>
          (case body of
             None \<Rightarrow> Some (s\<lparr>rd := R_Abort ZipError\<rparr>)
           | Some fs \<Rightarrow> Some (s\<lparr>rd := R_Range fs\<rparr>))
      | R_Range fs \<Rightarrow>
          (case fs of
             [] \<Rightarrow> Some (s\<lparr>rd := R_CloseOut\<rparr>)
           | f # fs' \<Rightarrow>
               if fname f = target then
                 (case fopen f of
                    None \<Rightarrow> Some (s\<lparr>rd := R_Abort OpenError\<rparr>)
                  | Some rs \<Rightarrow> Some (s\<lparr>rd := R_Cancelled rs fs'\<rparr>))
               else Some (s\<lparr>rd := R_Range fs'\<rparr>))
      | R_Cancelled rs fs \<Rightarrow>
          if cancel_closed s then Some (s\<lparr>rd := R_CloseOut\<rparr>)
          else
            (case rs of
               [] \<Rightarrow> Some (s\<lparr>rd := R_Range fs\<rparr>)
             | Fail # _ \<Rightarrow> Some (s\<lparr>rd := R_Abort CsvError\<rparr>)
             | Rec v # rs' \<Rightarrow> Some (s\<lparr>rd := R_Send v rs' fs\<rparr>))
      | R_Send v rs fs \<Rightarrow>
          if length (line s) < capacity
          then Some (s\<lparr>line := line s @ [v], rd := R_Cancelled rs fs\<rparr>)
          else None
      | R_Abort e \<Rightarrow> None
      | R_CloseCancel \<Rightarrow>
          if cancel_closed s then Some (s\<lparr>crashed := True\<rparr>)
          else Some (s\<lparr>cancel_closed := True, rd := R_CloseOut\<rparr>)
      | R_CloseOut \<Rightarrow> Some (s\<lparr>line_closed := True, rd := R_Exit\<rparr>)
      | R_Exit \<Rightarrow> None)"

text \<open>\<open>parser\<close> (lines 160-185).\<close>

definition parser :: "state \<Rightarrow> state option" where
  "parser s =
     (case ps s of
        P_Range \<Rightarrow>
          (case line s of
             v # q \<Rightarrow> Some (s\<lparr>line := q, seen := seen s @ [v], ps := P_Cancelled v\<rparr>)
           | [] \<Rightarrow>
               if line_closed s then
                 (if done_closed s then Some (s\<lparr>crashed := True\<rparr>)
                  else Some (s\<lparr>done_closed := True, ps := P_Exit\<rparr>))
               else None)
      | P_Cancelled v \<Rightarrow>
          if cancel_closed s then Some (s\<lparr>ps := P_Return\<rparr>)
          else
            (case parser_row v of
               RPanic \<Rightarrow> Some (s\<lparr>crashed := True\<rparr>)
             | RAbort e \<Rightarrow> Some (s\<lparr>ps := P_Abort e\<rparr>)
             | RSkip \<Rightarrow> Some (s\<lparr>ps := P_Range\<rparr>)
             | RAppend r \<Rightarrow> Some (s\<lparr>recs := recs s @ [r], ps := P_Range\<rparr>))
      | P_Abort e \<Rightarrow> None
      | P_CloseCancel \<Rightarrow>
          if cancel_closed s then Some (s\<lparr>crashed := True\<rparr>)
          else Some (s\<lparr>cancel_closed := True, ps := P_Return\<rparr>)
      | P_Return \<Rightarrow> None
      | P_Exit \<Rightarrow> None)"

text \<open>
  The \<open>select\<close> of \<open>ip2locInit\<close> (lines 71-75) and what follows it. A receive from
  \<open>chErr\<close> is a rendezvous with the one pending sender, which then moves on to
  \<open>close(cancel)\<close>; the handler returns the \<open>appError\<close> of line 73 and encodes no record.
  On \<open>done\<close> the handler encodes \<open>recs\<close> (lines 77-84; the encoder is outside the model)
  and returns \<open>nil\<close>.
\<close>

definition prepErr :: "error \<Rightarrow> appError" where
  "prepErr e = \<lparr>Error = e, Message = ''Error preparing IP2Location data'', Code = 404\<rparr>"

datatype action = Reader | Parser | RecvReader | RecvParser | RecvDone

definition ip2locInit :: "action \<Rightarrow> state \<Rightarrow> state option" where
  "ip2locInit a s =
     (case co s of
        C_Return e out \<Rightarrow> None
      | C_Select \<Rightarrow>
          (case a of
             RecvReader \<Rightarrow>
               (case rd s of
                  R_Abort e \<Rightarrow> Some (s\<lparr>rd := R_CloseCancel, co := C_Return (Some (prepErr e)) []\<rparr>)
                | _ \<Rightarrow> None)
           | RecvParser \<Rightarrow>
               (case ps s of
                  P_Abort e \<Rightarrow> Some (s\<lparr>ps := P_CloseCancel, co := C_Return (Some (prepErr e)) []\<rparr>)
                | _ \<Rightarrow> None)
           | RecvDone \<Rightarrow>
               if done_closed s then Some (s\<lparr>co := C_Return None (recs s)\<rparr>) else None
           | _ \<Rightarrow> None))"

text \<open>One step of the run under a scheduler's choice; nothing moves after a panic.\<close>

definition step :: "action \<Rightarrow> state \<Rightarrow> state option" where
  "step a s =
     (if crashed s then None
      else case a of Reader \<Rightarrow> reader s | Parser \<Rightarrow> parser s | _ \<Rightarrow> ip2locInit a s)"

text \<open>A schedule is a list of choices; \<open>None\<close> when it asks a blocked party to move.\<close>

fun exec :: "action list \<Rightarrow> state \<Rightarrow> state option" where
  "exec [] s = Some s"
| "exec (a # as) s = (case step a s of None \<Rightarrow> None | Some s' \<Rightarrow> exec as s')"

text \<open>
  What the handler has returned under a schedule: \<open>None\<close> when the schedule asks a
  blocked party to move, \<open>Some C_Select\<close> while the handler still waits, and
  \<open>Some (C_Return e out)\<close> once it has returned \<open>e\<close> having encoded the records \<open>out\<close>.
\<close>

definition outcome :: "action list \<Rightarrow> zfile list option \<Rightarrow> coord_pc option" where
  "outcome sched body = map_option co (exec sched (init body))"

section \<open>Specification functions\<close>

text \<open>
  The rows the reader sends and the error it raises when nothing cancels it, read off the
  archive: the entries named \<open>target\<close> in archive order, each up to its end, everything
  stopping at the first failure. The second argument of \<open>rows_csv\<close> and \<open>err_csv\<close> is what
  the entries after the current one contribute.
\<close>

fun rows_csv :: "csv_read list \<Rightarrow> string list list \<Rightarrow> string list list" where
  "rows_csv [] k = k"
| "rows_csv (Fail # rs) k = []"
| "rows_csv (Rec v # rs) k = v # rows_csv rs k"

fun err_csv :: "csv_read list \<Rightarrow> error option \<Rightarrow> error option" where
  "err_csv [] k = k"
| "err_csv (Fail # rs) k = Some CsvError"
| "err_csv (Rec v # rs) k = err_csv rs k"

fun rows_files :: "zfile list \<Rightarrow> string list list" where
  "rows_files [] = []"
| "rows_files (f # fs) =
     (if fname f = target
      then (case fopen f of None \<Rightarrow> [] | Some rs \<Rightarrow> rows_csv rs (rows_files fs))
      else rows_files fs)"

fun err_files :: "zfile list \<Rightarrow> error option" where
  "err_files [] = None"
| "err_files (f # fs) =
     (if fname f = target
      then (case fopen f of None \<Rightarrow> Some OpenError | Some rs \<Rightarrow> err_csv rs (err_files fs))
      else err_files fs)"

text \<open>The same, from a program counter of the reader: what is still to come.\<close>

fun pending_rows :: "reader_pc \<Rightarrow> string list list" where
  "pending_rows (R_NewReader body) = (case body of None \<Rightarrow> [] | Some fs \<Rightarrow> rows_files fs)"
| "pending_rows (R_Range fs) = rows_files fs"
| "pending_rows (R_Cancelled rs fs) = rows_csv rs (rows_files fs)"
| "pending_rows (R_Send v rs fs) = v # rows_csv rs (rows_files fs)"
| "pending_rows (R_Abort e) = []"
| "pending_rows R_CloseCancel = []"
| "pending_rows R_CloseOut = []"
| "pending_rows R_Exit = []"

fun pending_err :: "reader_pc \<Rightarrow> error option" where
  "pending_err (R_NewReader body) = (case body of None \<Rightarrow> Some ZipError | Some fs \<Rightarrow> err_files fs)"
| "pending_err (R_Range fs) = err_files fs"
| "pending_err (R_Cancelled rs fs) = err_csv rs (err_files fs)"
| "pending_err (R_Send v rs fs) = err_csv rs (err_files fs)"
| "pending_err (R_Abort e) = Some e"
| "pending_err R_CloseCancel = None"
| "pending_err R_CloseOut = None"
| "pending_err R_Exit = None"

definition all_rows :: "zfile list option \<Rightarrow> string list list" where
  "all_rows body = pending_rows (R_NewReader body)"

definition all_err :: "zfile list option \<Rightarrow> error option" where
  "all_err body = pending_err (R_NewReader body)"

text \<open>
  The first row of a sequence on which the loop body does not go on to the next row, with
  the way it ends there; and the records the body appends over a sequence.
\<close>

fun first_bad :: "string list list \<Rightarrow> row_result option" where
  "first_bad [] = None"
| "first_bad (v # vs) =
     (case parser_row v of
        RSkip \<Rightarrow> first_bad vs
      | RAppend r \<Rightarrow> first_bad vs
      | RPanic \<Rightarrow> Some RPanic
      | RAbort e \<Rightarrow> Some (RAbort e))"

fun records :: "string list list \<Rightarrow> ip2locRec list" where
  "records [] = []"
| "records (v # vs) = (case parser_row v of RAppend r \<Rightarrow> r # records vs | _ \<Rightarrow> records vs)"

text \<open>
  The specification's words for a row and its record. A row is well formed when it has
  the fields the parser reads on its branch and the upper bound is an integer; the Range
  Record of a row takes \<open>upperBound\<close> from field 1, \<open>countryCode\<close> from field 2, and
  \<open>region\<close> and \<open>city\<close> from fields 4 and 5 when the country is whitelisted; the retained
  rows are those whose country code is not the sentinel.
\<close>

definition wf_row :: "string list \<Rightarrow> bool" where
  "wf_row v =
     (3 \<le> length v \<and> SetString (v ! 1) \<noteq> None \<and>
      (v ! 2 = ''-'' \<or> supportedCountries (v ! 2) = None \<or> 6 \<le> length v))"

definition rangeRecord :: "string list \<Rightarrow> ip2locRec" where
  "rangeRecord v =
     \<lparr>ToIP = the (SetString (v ! 1)), CountryCode = v ! 2,
      Region = (if v ! 2 \<in> {''AU'', ''CA'', ''GB'', ''US''} then v ! 4 else []),
      City = (if v ! 2 \<in> {''AU'', ''CA'', ''GB'', ''US''} then v ! 5 else [])\<rparr>"

definition retained :: "string list list \<Rightarrow> string list list" where
  "retained rows = filter (\<lambda>v. v ! 2 \<noteq> ''-'') rows"

text \<open>
  A decimal integer with an optional sign, the specification-side reading of what
  \<open>SetString\<close> accepts at base 10.
\<close>

definition is_digit :: "char \<Rightarrow> bool" where
  "is_digit c = (c \<in> set ''0123456789'')"

definition signed_decimal :: "string \<Rightarrow> bool" where
  "signed_decimal s =
     (case s of
        [] \<Rightarrow> False
      | c # cs \<Rightarrow>
          if c = CHR ''-'' \<or> c = CHR ''+'' then cs \<noteq> [] \<and> list_all is_digit cs
          else list_all is_digit s)"

section \<open>Invariants of a run\<close>

text \<open>
  What holds of the parser at each program counter: the rows received before the current
  one went through the loop body without failure, and \<open>recs\<close> holds their records.
\<close>

definition parser_ok :: "state \<Rightarrow> bool" where
  "parser_ok s =
     (case ps s of
        P_Range \<Rightarrow> first_bad (seen s) = None \<and> recs s = records (seen s)
      | P_Cancelled v \<Rightarrow>
          (\<exists>t. seen s = t @ [v] \<and> first_bad t = None \<and> recs s = records t)
      | P_Abort e \<Rightarrow> first_bad (seen s) = Some (RAbort e)
      | P_CloseCancel \<Rightarrow> True
      | P_Return \<Rightarrow> True
      | P_Exit \<Rightarrow> first_bad (seen s) = None \<and> recs s = records (seen s))"

text \<open>What the handler may return for an archive.\<close>

definition result_ok :: "zfile list option \<Rightarrow> appError option \<Rightarrow> ip2locRec list \<Rightarrow> bool" where
  "result_ok body e out =
     (case e of
        None \<Rightarrow>
          all_err body = None \<and> first_bad (all_rows body) = None \<and> out = records (all_rows body)
      | Some ae \<Rightarrow>
          out = [] \<and> ae = prepErr (Error ae) \<and>
          (all_err body = Some (Error ae) \<or>
           first_bad (all_rows body) = Some (RAbort (Error ae))))"

text \<open>The control invariant: how the program counters and the channels go together.\<close>

definition inv_ctl :: "state \<Rightarrow> bool" where
  "inv_ctl s =
     ((done_closed s \<longleftrightarrow> ps s = P_Exit) \<and>
      (ps s = P_Exit \<longrightarrow> line s = [] \<and> line_closed s) \<and>
      (line_closed s \<longleftrightarrow> rd s = R_Exit) \<and>
      (co s = C_Select \<longrightarrow>
         \<not> cancel_closed s \<and> rd s \<noteq> R_CloseCancel \<and> ps s \<noteq> P_CloseCancel \<and> ps s \<noteq> P_Return) \<and>
      (rd s = R_CloseCancel \<longrightarrow> \<not> cancel_closed s \<and> ps s \<noteq> P_CloseCancel) \<and>
      (ps s = P_CloseCancel \<longrightarrow> \<not> cancel_closed s) \<and>
      (crashed s \<longrightarrow> (\<exists>v. ps s = P_Cancelled v \<and> parser_row v = RPanic)))"

definition inv :: "zfile list option \<Rightarrow> state \<Rightarrow> bool" where
  "inv body s =
     (inv_ctl s \<and> parser_ok s \<and>
      (co s = C_Select \<longrightarrow>
         all_rows body = seen s @ line s @ pending_rows (rd s) \<and>
         all_err body = pending_err (rd s)) \<and>
      (\<forall>e out. co s = C_Return e out \<longrightarrow> result_ok body e out))"

text \<open>A bound on the steps a run still has: every step lowers it.\<close>

fun files_m :: "zfile list \<Rightarrow> nat" where
  "files_m [] = 0"
| "files_m (f # fs) = 2 + (case fopen f of None \<Rightarrow> 0 | Some rs \<Rightarrow> 2 * length rs) + files_m fs"

fun rd_m :: "reader_pc \<Rightarrow> nat" where
  "rd_m (R_NewReader body) = 5 + (case body of None \<Rightarrow> 0 | Some fs \<Rightarrow> files_m fs)"
| "rd_m (R_Range fs) = 4 + files_m fs"
| "rd_m (R_Cancelled rs fs) = 5 + 2 * length rs + files_m fs"
| "rd_m (R_Send v rs fs) = 6 + 2 * length rs + files_m fs"
| "rd_m (R_Abort e) = 3"
| "rd_m R_CloseCancel = 2"
| "rd_m R_CloseOut = 1"
| "rd_m R_Exit = 0"

fun ps_m :: "parser_pc \<Rightarrow> nat" where
  "ps_m P_Range = 5"
| "ps_m (P_Cancelled v) = 6"
| "ps_m (P_Abort e) = 4"
| "ps_m P_CloseCancel = 3"
| "ps_m P_Return = 0"
| "ps_m P_Exit = 0"

fun co_m :: "coord_pc \<Rightarrow> nat" where
  "co_m C_Select = 1"
| "co_m (C_Return e out) = 0"

definition work :: "state \<Rightarrow> nat" where
  "work s = 3 * rd_m (rd s) + 2 * length (line s) + ps_m (ps s) + co_m (co s)
            + (if crashed s then 0 else 1)"

section \<open>Example inputs\<close>

text \<open>The rows of the specification's scenarios, and the records they give.\<close>

definition rowFR :: "string list" where
  "rowFR = [''0'', ''281470681743360'', ''FR'', ''France'', ''Paris-region'', ''Paris'']"

definition rowUS :: "string list" where
  "rowUS = [''0'', ''281470681743360'', ''US'', ''United States'', ''California'', ''Los Angeles'']"

definition rowNone :: "string list" where
  "rowNone = [''0'', ''1'', ''-'', ''-'', ''-'', ''-'']"

definition recFR :: ip2locRec where
  "recFR = \<lparr>ToIP = 281470681743360, CountryCode = ''FR'', Region = [], City = []\<rparr>"

definition recUS :: ip2locRec where
  "recUS = \<lparr>ToIP = 281470681743360, CountryCode = ''US'', Region = ''California'',
            City = ''Los Angeles''\<rparr>"

text \<open>An archive with a readme and the target entry of three rows, the second unassigned.\<close>

definition archive3 :: "zfile list option" where
  "archive3 =
     Some [\<lparr>fname = ''README.TXT'', fopen = Some []\<rparr>,
           \<lparr>fname = target, fopen = Some [Rec rowFR, Rec rowNone, Rec rowUS]\<rparr>]"

text \<open>The schedule that lets the reader run to its end, then the parser, then the handler.\<close>

definition sched3 :: "action list" where
  "sched3 =
     [Reader, Reader, Reader, Reader, Reader, Reader, Reader, Reader, Reader, Reader, Reader, Reader,
      Parser, Parser, Parser, Parser, Parser, Parser, Parser, RecvDone]"




text \<open>An archive with no entry named \<open>target\<close>.\<close>

definition archiveNoTarget :: "zfile list option" where
  "archiveNoTarget = Some [\<lparr>fname = ''README.TXT'', fopen = Some [Rec rowUS]\<rparr>]"


text \<open>An entry whose one row has a negative upper bound, and a schedule for an entry of one row.\<close>

definition rowNeg :: "string list" where
  "rowNeg = [''0'', ''-5'', ''FR'']"

definition archiveNeg :: "zfile list option" where
  "archiveNeg = Some [\<lparr>fname = target, fopen = Some [Rec rowNeg]\<rparr>]"

definition schedOne :: "action list" where
  "schedOne = [Reader, Reader, Reader, Reader, Reader, Reader, Reader, Parser, Parser, Parser, RecvDone]"

text \<open>An entry whose one row has a single field; the schedule ends when the parser has taken it.\<close>

definition archiveShort :: "zfile list option" where
  "archiveShort = Some [\<lparr>fname = target, fopen = Some [Rec [''abc'']]\<rparr>]"

definition schedShort :: "action list" where
  "schedShort = [Reader, Reader, Reader, Reader, Parser, Parser]"

text \<open>
  An entry whose first row has an upper bound that is not a number, and whose second
  read fails. Under the schedule the reader sends the row and reaches its send on
  \<open>chErr\<close>, the parser takes the row and reaches its own send, the handler receives
  from the reader, and the reader closes the token and the queue.
\<close>

definition archiveTwoFailures :: "zfile list option" where
  "archiveTwoFailures = Some [\<lparr>fname = target, fopen = Some [Rec [''0'', ''bad'', ''US''], Fail]\<rparr>]"

definition schedTwoFailures :: "action list" where
  "schedTwoFailures =
     [Reader, Reader, Reader, Reader, Reader, Parser, Parser, RecvReader, Reader, Reader]"

text \<open>
  For an archive that \<open>zip.NewReader\<close> rejects: the reader sends its error, the
  handler receives it, the reader closes the token and the queue, and the parser moves.
\<close>

definition schedZip :: "action list" where
  "schedZip = [Reader, RecvReader, Reader, Reader, Parser]"



text \<open>
  Two schedules that bring the parser to its receive with the queue closed and empty:
  after \<open>zip.NewReader\<close> failed and the reader set the token, and after the reader found
  no entry named \<open>target\<close>, the token unset.
\<close>

definition schedZipClosed :: "action list" where
  "schedZipClosed = [Reader, RecvReader, Reader, Reader]"

definition schedNoTargetClosed :: "action list" where
  "schedNoTargetClosed = [Reader, Reader, Reader, Reader]"

section \<open>Lemmas on the specification functions\<close>

lemma supported_iff: "(supportedCountries cc = None) = (cc \<notin> {''AU'', ''CA'', ''GB'', ''US''})"
  by (simp add: supportedCountries_def)

lemma parser_row_wf:
  assumes "wf_row v"
  shows "parser_row v = (if v ! 2 = ''-'' then RSkip else RAppend (rangeRecord v))"
proof -
  from assms have l: "3 \<le> length v" and n: "SetString (v ! 1) \<noteq> None"
    and w: "v ! 2 = ''-'' \<or> supportedCountries (v ! 2) = None \<or> 6 \<le> length v"
    by (simp_all add: wf_row_def)
  from n obtain ip where ip: "SetString (v ! 1) = Some ip" by blast
  show ?thesis
  proof (cases "v ! 2 = ''-''")
    case True
    with l ip show ?thesis by (simp add: parser_row_def index_def)
  next
    case ns: False
    show ?thesis
    proof (cases "supportedCountries (v ! 2) = None")
      case True
      then have "v ! 2 \<notin> {''AU'', ''CA'', ''GB'', ''US''}" by (simp add: supported_iff)
      with True ns l ip show ?thesis by (simp add: parser_row_def index_def rangeRecord_def)
    next
      case False
      then have m: "v ! 2 \<in> {''AU'', ''CA'', ''GB'', ''US''}" by (simp add: supported_iff)
      from False ns w have "6 \<le> length v" by simp
      with False ns m l ip show ?thesis by (simp add: parser_row_def index_def rangeRecord_def)
    qed
  qed
qed

lemma parser_row_not_wf:
  "\<not> wf_row v \<Longrightarrow> parser_row v = RPanic \<or> parser_row v = RAbort (RecordError v)"
  unfolding wf_row_def parser_row_def index_def
  by (auto split: option.splits)

lemma first_bad_None_iff: "first_bad rows = None \<longleftrightarrow> (\<forall>v \<in> set rows. wf_row v)"
proof (induction rows)
  case Nil
  then show ?case by simp
next
  case (Cons v vs)
  show ?case
  proof (cases "wf_row v")
    case True
    with Cons parser_row_wf [OF True] show ?thesis by simp
  next
    case False
    with parser_row_not_wf [OF False] show ?thesis by auto
  qed
qed

lemma records_wf: "\<forall>v \<in> set rows. wf_row v \<Longrightarrow> records rows = map rangeRecord (retained rows)"
  by (induction rows) (simp_all add: retained_def parser_row_wf)

lemma first_bad_append:
  "first_bad (xs @ ys) = (case first_bad xs of None \<Rightarrow> first_bad ys | Some r \<Rightarrow> Some r)"
  by (induction xs) (auto split: row_result.splits)

lemma records_append: "records (xs @ ys) = records xs @ records ys"
  by (induction xs) (auto split: row_result.splits)

section \<open>What SetString accepts\<close>

lemma digit_is_digit: "digit c \<noteq> None \<longleftrightarrow> is_digit c"
proof
  assume "digit c \<noteq> None"
  then have "48 \<le> (of_char c :: nat) \<and> (of_char c :: nat) \<le> 57"
    by (simp add: digit_def Let_def split: if_splits)
  moreover have "\<And>n :: nat. 48 \<le> n \<and> n \<le> 57 \<Longrightarrow> n \<in> {48, 49, 50, 51, 52, 53, 54, 55, 56, 57}"
    by simp arith
  ultimately have "(of_char c :: nat) \<in> {48, 49, 50, 51, 52, 53, 54, 55, 56, 57}" by blast
  then have "(of_char c :: nat) \<in> of_char ` set ''0123456789''" by simp
  then obtain d where "d \<in> set ''0123456789''" and "(of_char c :: nat) = of_char d" by blast
  then show "is_digit c" by (simp only: is_digit_def of_char_eq_iff)
next
  assume "is_digit c"
  then show "digit c \<noteq> None" by (auto simp: is_digit_def digit_def)
qed

lemma scan_Some_iff: "scan acc s \<noteq> None \<longleftrightarrow> list_all is_digit s"
proof (induction s arbitrary: acc)
  case Nil
  then show ?case by simp
next
  case (Cons c cs)
  show ?case
  proof (cases "digit c")
    case None
    with digit_is_digit [of c] show ?thesis by simp
  next
    case (Some d)
    with digit_is_digit [of c] Cons show ?thesis by simp
  qed
qed

lemma SetString_Some_iff: "SetString s \<noteq> None \<longleftrightarrow> signed_decimal s"
proof (cases s)
  case Nil
  then show ?thesis by (simp add: SetString_def signed_decimal_def)
next
  case (Cons c cs)
  have m: "\<And>t. mantissa t \<noteq> None \<longleftrightarrow> t \<noteq> [] \<and> list_all is_digit t"
    using scan_Some_iff by (simp add: mantissa_def)
  from Cons m [of cs] m [of s] show ?thesis
    by (auto simp: SetString_def signed_decimal_def)
qed


section \<open>The invariants hold in every reachable state\<close>

lemma inv_init: "inv body (init body)"
  by (simp add: inv_def inv_ctl_def parser_ok_def init_def all_rows_def all_err_def)

lemma reader_ctl: "inv_ctl s \<Longrightarrow> \<not> crashed s \<Longrightarrow> reader s = Some s' \<Longrightarrow> inv_ctl s'"
  unfolding inv_ctl_def reader_def
  by (cases "rd s"; clarsimp split: option.splits list.splits if_splits csv_read.splits)

lemma parser_ctl: "inv_ctl s \<Longrightarrow> \<not> crashed s \<Longrightarrow> parser s = Some s' \<Longrightarrow> inv_ctl s'"
  unfolding inv_ctl_def parser_def
  by (cases "ps s"; clarsimp split: option.splits list.splits if_splits row_result.splits)

lemma coord_ctl: "inv_ctl s \<Longrightarrow> \<not> crashed s \<Longrightarrow> ip2locInit a s = Some s' \<Longrightarrow> inv_ctl s'"
  unfolding inv_ctl_def ip2locInit_def
  by (cases "co s"; cases a; clarsimp split: if_splits reader_pc.splits parser_pc.splits)

lemma parser_ok_frame:
  "ps s' = ps s \<Longrightarrow> seen s' = seen s \<Longrightarrow> recs s' = recs s \<Longrightarrow> parser_ok s' = parser_ok s"
  by (simp add: parser_ok_def split: parser_pc.splits)

lemma reader_frame:
  "reader s = Some s' \<Longrightarrow> ps s' = ps s \<and> seen s' = seen s \<and> recs s' = recs s \<and> co s' = co s"
  unfolding reader_def
  by (cases "rd s"; clarsimp split: option.splits list.splits if_splits csv_read.splits)

lemma reader_inv:
  assumes "inv body s" and "\<not> crashed s" and "reader s = Some s'"
  shows "inv body s'"
proof -
  from assms(1) have c: "inv_ctl s" and p: "parser_ok s"
    and d: "co s = C_Select \<longrightarrow>
         all_rows body = seen s @ line s @ pending_rows (rd s) \<and> all_err body = pending_err (rd s)"
    and r: "\<forall>e out. co s = C_Return e out \<longrightarrow> result_ok body e out"
    by (simp_all add: inv_def)
  have 1: "inv_ctl s'" by (rule reader_ctl [OF c assms(2,3)])
  have 2: "parser_ok s'" using p reader_frame [OF assms(3)] parser_ok_frame [of s' s] by simp
  have 3: "co s' = C_Select \<longrightarrow>
         all_rows body = seen s' @ line s' @ pending_rows (rd s') \<and> all_err body = pending_err (rd s')"
    using c d assms(3) unfolding reader_def inv_ctl_def
    by (cases "rd s"; clarsimp split: option.splits list.splits if_splits csv_read.splits)
  have 4: "\<forall>e out. co s' = C_Return e out \<longrightarrow> result_ok body e out"
    using r reader_frame [OF assms(3)] by simp
  from 1 2 3 4 show ?thesis by (simp add: inv_def)
qed

lemma parser_inv:
  assumes "inv body s" and "\<not> crashed s" and "parser s = Some s'"
  shows "inv body s'"
proof -
  from assms(1) have c: "inv_ctl s" and p: "parser_ok s"
    and d: "co s = C_Select \<longrightarrow>
         all_rows body = seen s @ line s @ pending_rows (rd s) \<and> all_err body = pending_err (rd s)"
    and r: "\<forall>e out. co s = C_Return e out \<longrightarrow> result_ok body e out"
    by (simp_all add: inv_def)
  have 1: "inv_ctl s'" by (rule parser_ctl [OF c assms(2,3)])
  have 2: "parser_ok s'" using p assms(3) unfolding parser_def parser_ok_def
    by (cases "ps s"; clarsimp simp: first_bad_append records_append
          split: option.splits list.splits if_splits row_result.splits)
  have 3: "co s' = C_Select \<longrightarrow>
         all_rows body = seen s' @ line s' @ pending_rows (rd s') \<and> all_err body = pending_err (rd s')"
    using c d assms(3) unfolding parser_def inv_ctl_def
    by (cases "ps s"; clarsimp split: option.splits list.splits if_splits row_result.splits)
  have 4: "\<forall>e out. co s' = C_Return e out \<longrightarrow> result_ok body e out"
    using r assms(3) unfolding parser_def
    by (cases "ps s"; clarsimp split: option.splits list.splits if_splits row_result.splits)
  from 1 2 3 4 show ?thesis by (simp add: inv_def)
qed

lemma coord_inv:
  assumes "inv body s" and "\<not> crashed s" and "ip2locInit a s = Some s'"
  shows "inv body s'"
proof -
  from assms(1) have c: "inv_ctl s" and p: "parser_ok s"
    and d: "co s = C_Select \<longrightarrow>
         all_rows body = seen s @ line s @ pending_rows (rd s) \<and> all_err body = pending_err (rd s)"
    and r: "\<forall>e out. co s = C_Return e out \<longrightarrow> result_ok body e out"
    by (simp_all add: inv_def)
  have 1: "inv_ctl s'" by (rule coord_ctl [OF c assms(2,3)])
  have 2: "parser_ok s'" using p assms(3) unfolding ip2locInit_def parser_ok_def
    by (cases "co s"; cases a; clarsimp split: if_splits reader_pc.splits parser_pc.splits)
  have 3: "co s' = C_Select \<longrightarrow>
         all_rows body = seen s' @ line s' @ pending_rows (rd s') \<and> all_err body = pending_err (rd s')"
    using assms(3) unfolding ip2locInit_def
    by (cases "co s"; cases a; clarsimp split: if_splits reader_pc.splits parser_pc.splits)
  have 4: "\<forall>e out. co s' = C_Return e out \<longrightarrow> result_ok body e out"
    using c p d assms(3) unfolding ip2locInit_def inv_ctl_def parser_ok_def result_ok_def
    by (cases "co s"; cases a; clarsimp simp: first_bad_append prepErr_def split: if_splits reader_pc.splits parser_pc.splits)
  from 1 2 3 4 show ?thesis by (simp add: inv_def)
qed

lemma step_inv: "inv body s \<Longrightarrow> step a s = Some s' \<Longrightarrow> inv body s'"
  unfolding step_def
  by (cases a) (auto split: if_splits intro: reader_inv parser_inv coord_inv)

lemma exec_inv: "inv body s \<Longrightarrow> exec sched s = Some s' \<Longrightarrow> inv body s'"
  by (induction sched arbitrary: s) (auto split: option.splits dest: step_inv)

lemma reachable_inv: "exec sched (init body) = Some s \<Longrightarrow> inv body s"
  using exec_inv [OF inv_init] by blast

section \<open>Every run comes to an end\<close>

lemma reader_work: "\<not> crashed s \<Longrightarrow> reader s = Some s' \<Longrightarrow> work s' < work s"
  unfolding reader_def work_def
  by (cases "rd s"; clarsimp split: option.splits list.splits if_splits csv_read.splits)

lemma parser_work: "\<not> crashed s \<Longrightarrow> parser s = Some s' \<Longrightarrow> work s' < work s"
  unfolding parser_def work_def
  by (cases "ps s"; clarsimp split: option.splits list.splits if_splits row_result.splits)

lemma coord_work: "\<not> crashed s \<Longrightarrow> ip2locInit a s = Some s' \<Longrightarrow> work s' < work s"
  unfolding ip2locInit_def work_def
  by (cases "co s"; cases a; clarsimp split: if_splits reader_pc.splits parser_pc.splits)

lemma step_work: "step a s = Some s' \<Longrightarrow> work s' < work s"
  unfolding step_def
  by (cases a) (auto split: if_splits intro: reader_work parser_work coord_work)

lemma exec_work: "exec sched s = Some s' \<Longrightarrow> length sched + work s' \<le> work s"
proof (induction sched arbitrary: s)
  case Nil
  then show ?case by simp
next
  case (Cons a as)
  then obtain s1 where 1: "step a s = Some s1" and 2: "exec as s1 = Some s'"
    by (auto split: option.splits)
  from Cons.IH [OF 2] step_work [OF 1] show ?case by simp
qed

lemma progress:
  assumes "inv_ctl s" and "co s = C_Select" and "\<not> crashed s"
  shows "\<exists>a s'. step a s = Some s'"
proof (cases "rd s")
  case (R_Abort e)
  with assms have "step RecvReader s = Some (s\<lparr>rd := R_CloseCancel, co := C_Return (Some (prepErr e)) []\<rparr>)"
    by (simp add: step_def ip2locInit_def)
  then show ?thesis by blast
next
  case R_Exit
  show ?thesis
  proof (cases "ps s")
    case (P_Abort e)
    with assms have "step RecvParser s = Some (s\<lparr>ps := P_CloseCancel, co := C_Return (Some (prepErr e)) []\<rparr>)"
      by (simp add: step_def ip2locInit_def)
    then show ?thesis by blast
  next
    case P_Exit
    with assms have "step RecvDone s = Some (s\<lparr>co := C_Return None (recs s)\<rparr>)"
      by (simp add: step_def ip2locInit_def inv_ctl_def)
    then show ?thesis by blast
  next
    case P_Range
    with assms R_Exit have "\<exists>s'. step Parser s = Some s'"
      by (simp add: step_def parser_def inv_ctl_def split: list.splits)
    then show ?thesis by blast
  next
    case (P_Cancelled v)
    with assms have "\<exists>s'. step Parser s = Some s'"
      by (simp add: step_def parser_def split: row_result.splits)
    then show ?thesis by blast
  next
    case P_CloseCancel
    with assms show ?thesis by (simp add: inv_ctl_def)
  next
    case P_Return
    with assms show ?thesis by (simp add: inv_ctl_def)
  qed
next
  case (R_Send v rs fs)
  show ?thesis
  proof (cases "length (line s) < capacity")
    case True
    with assms R_Send have "\<exists>s'. step Reader s = Some s'"
      by (simp add: step_def reader_def)
    then show ?thesis by blast
  next
    case False
    then have ne: "line s \<noteq> []" by (auto simp: capacity_def)
    show ?thesis
    proof (cases "ps s")
      case (P_Abort e)
      with assms have "step RecvParser s = Some (s\<lparr>ps := P_CloseCancel, co := C_Return (Some (prepErr e)) []\<rparr>)"
        by (simp add: step_def ip2locInit_def)
      then show ?thesis by blast
    next
      case P_Exit
      with assms ne show ?thesis by (simp add: inv_ctl_def)
    next
      case P_Range
      with assms ne have "\<exists>s'. step Parser s = Some s'"
        by (simp add: step_def parser_def split: list.splits)
      then show ?thesis by blast
    next
      case (P_Cancelled v)
      with assms have "\<exists>s'. step Parser s = Some s'"
        by (simp add: step_def parser_def split: row_result.splits)
      then show ?thesis by blast
    next
      case P_CloseCancel
      with assms show ?thesis by (simp add: inv_ctl_def)
    next
      case P_Return
      with assms show ?thesis by (simp add: inv_ctl_def)
    qed
  qed
next
  case (R_NewReader b)
  with assms have "\<exists>s'. step Reader s = Some s'"
    by (simp add: step_def reader_def split: option.splits)
  then show ?thesis by blast
next
  case (R_Range fs)
  with assms have "\<exists>s'. step Reader s = Some s'"
    by (simp add: step_def reader_def split: option.splits list.splits)
  then show ?thesis by blast
next
  case (R_Cancelled rs fs)
  with assms have "\<exists>s'. step Reader s = Some s'"
    by (simp add: step_def reader_def split: option.splits list.splits csv_read.splits)
  then show ?thesis by blast
next
  case R_CloseCancel
  with assms show ?thesis by (simp add: inv_ctl_def)
next
  case R_CloseOut
  with assms have "\<exists>s'. step Reader s = Some s'"
    by (simp add: step_def reader_def)
  then show ?thesis by blast
qed

lemma stuck_returned:
  assumes "exec sched (init body) = Some s" and "\<forall>a. step a s = None"
  shows "crashed s \<or> co s \<noteq> C_Select"
proof (rule ccontr)
  assume "\<not> (crashed s \<or> co s \<noteq> C_Select)"
  then have "co s = C_Select" and "\<not> crashed s" by simp_all
  moreover from reachable_inv [OF assms(1)] have "inv_ctl s" by (simp add: inv_def)
  ultimately have "\<exists>a s'. step a s = Some s'" by (rule progress [rotated])
  with assms(2) show False by simp
qed


section \<open>What the handler returns\<close>

lemma outcomeD:
  "outcome sched body = Some c \<Longrightarrow> \<exists>s. exec sched (init body) = Some s \<and> co s = c"
  by (auto simp: outcome_def)



lemma returned_result:
  "outcome sched body = Some (C_Return e out) \<Longrightarrow> result_ok body e out"
  by (auto simp: inv_def dest!: outcomeD reachable_inv)

lemma completed_output:
  assumes "outcome sched body = Some (C_Return None out)"
  shows "all_err body = None" and "\<forall>v \<in> set (all_rows body). wf_row v"
    and "out = map rangeRecord (retained (all_rows body))"
proof -
  from returned_result [OF assms]
  have 1: "all_err body = None" and 2: "first_bad (all_rows body) = None"
    and 3: "out = records (all_rows body)"
    by (simp_all add: result_ok_def)
  from 1 show "all_err body = None" .
  from 2 show w: "\<forall>v \<in> set (all_rows body). wf_row v" by (simp add: first_bad_None_iff)
  from 3 records_wf [OF w] show "out = map rangeRecord (retained (all_rows body))" by simp
qed



lemma retained_sentinel: "v \<in> set (retained rows) \<Longrightarrow> v ! 2 \<noteq> ''-''"
  by (simp add: retained_def)

section \<open>The example run\<close>

lemmas run_simps = outcome_def init_def step_def reader_def parser_def ip2locInit_def prepErr_def
  capacity_def target_def parser_row_def index_def SetString_def mantissa_def digit_def
  supportedCountries_def

lemma all_rows_archive3: "all_rows archive3 = [rowFR, rowNone, rowUS]"
  by (simp add: all_rows_def archive3_def target_def)




lemma outcome_archive3: "outcome sched3 archive3 = Some (C_Return None [recFR, recUS])"
  by (simp add: sched3_def archive3_def rowFR_def rowNone_def rowUS_def recFR_def recUS_def run_simps)

lemma retained_archive3: "retained (all_rows archive3) = [rowFR, rowUS]"
  by (simp add: all_rows_archive3 retained_def rowFR_def rowNone_def rowUS_def)


section \<open>Further lemmas for the claims\<close>






lemma retained_wf:
  assumes "\<forall>v \<in> set rows. wf_row v" and "i < length (retained rows)"
  shows "wf_row (retained rows ! i)" and "retained rows ! i ! 2 \<noteq> ''-''"
proof -
  from assms(2) have m: "retained rows ! i \<in> set (retained rows)" by (rule nth_mem)
  then have "retained rows ! i \<in> set rows" by (simp add: retained_def)
  with assms(1) show "wf_row (retained rows ! i)" by blast
  from m show "retained rows ! i ! 2 \<noteq> ''-''" by (rule retained_sentinel)
qed

lemma rows_csv_Rec: "rows_csv (map Rec vs) k = vs @ k"
  by (induction vs) simp_all

lemma err_csv_Rec: "err_csv (map Rec vs) k = k"
  by (induction vs) simp_all

lemma rows_files_skip: "\<forall>g \<in> set fs. fname g \<noteq> target \<Longrightarrow> rows_files (fs @ gs) = rows_files gs"
  by (induction fs) simp_all


lemma all_rows_one_entry:
  assumes "fname f = target" and "fopen f = Some (map Rec vs)"
    and "\<forall>g \<in> set fs1 \<union> set fs2. fname g \<noteq> target"
  shows "all_rows (Some (fs1 @ f # fs2)) = vs"
proof -
  from assms(3) have 1: "\<forall>g \<in> set fs1. fname g \<noteq> target" and 2: "\<forall>g \<in> set fs2. fname g \<noteq> target"
    by simp_all
  from rows_files_skip [OF 2, of "[]"] have "rows_files fs2 = []" by simp
  with assms(1,2) rows_files_skip [OF 1, of "f # fs2"] show ?thesis
    by (simp add: all_rows_def rows_csv_Rec)
qed

lemma send_never_received:
  "co s \<noteq> C_Select \<Longrightarrow> ps s = P_Abort e \<Longrightarrow> exec sched s = Some s' \<Longrightarrow>
   ps s' = P_Abort e \<and> co s' \<noteq> C_Select"
proof (induction sched arbitrary: s)
  case Nil
  then show ?case by simp
next
  case (Cons a as)
  from Cons.prems(3) obtain s1 where 1: "step a s = Some s1" and 2: "exec as s1 = Some s'"
    by (auto split: option.splits)
  from 1 Cons.prems(1,2) have "co s1 \<noteq> C_Select \<and> ps s1 = P_Abort e"
    by (cases a; cases "co s")
      (auto simp: step_def parser_def ip2locInit_def dest: reader_frame split: if_splits)
  with Cons.IH [OF _ _ 2] show ?case by simp
qed


lemma reader_done: "reader s = Some s' \<Longrightarrow> done_closed s' = done_closed s"
  unfolding reader_def
  by (cases "rd s"; clarsimp split: option.splits list.splits if_splits csv_read.splits)

lemma coord_done: "ip2locInit a s = Some s' \<Longrightarrow> done_closed s' = done_closed s"
  unfolding ip2locInit_def
  by (cases "co s"; cases a; clarsimp split: if_splits reader_pc.splits parser_pc.splits)

lemma parser_done:
  "parser s = Some s' \<Longrightarrow> done_closed s' \<noteq> done_closed s \<Longrightarrow>
   ps s = P_Range \<and> line s = [] \<and> line_closed s \<and> \<not> done_closed s \<and>
   s' = s\<lparr>done_closed := True, ps := P_Exit\<rparr>"
  unfolding parser_def
  by (cases "ps s"; clarsimp split: option.splits list.splits if_splits row_result.splits)

lemma done_changes:
  assumes "step a s = Some s'" and "done_closed s' \<noteq> done_closed s"
  shows "a = Parser \<and> ps s = P_Range \<and> line s = [] \<and> line_closed s \<and> \<not> done_closed s \<and>
         s' = s\<lparr>done_closed := True, ps := P_Exit\<rparr>"
proof (cases a)
  case Reader
  with assms reader_done [of s s'] show ?thesis by (simp add: step_def split: if_splits)
next
  case Parser
  with assms parser_done [of s s'] show ?thesis by (simp add: step_def split: if_splits)
next
  case RecvReader
  with assms coord_done [of a s s'] show ?thesis by (simp add: step_def split: if_splits)
next
  case RecvParser
  with assms coord_done [of a s s'] show ?thesis by (simp add: step_def split: if_splits)
next
  case RecvDone
  with assms coord_done [of a s s'] show ?thesis by (simp add: step_def split: if_splits)
qed

section \<open>The claims\<close>






text \<open>
  Claim C3. In a completed run the record at position \<open>i\<close> belongs to the \<open>i\<close>-th retained
  row. If that row's country code is not in \<open>supportedCountries\<close>, the record's region and
  city are empty; if it is, they are the row's fields 4 and 5.
\<close>

theorem C3_region_city_by_whitelist:
  assumes "outcome sched body = Some (C_Return None out)" and "i < length out"
  shows "i < length (retained (all_rows body)) \<and>
         CountryCode (out ! i) = retained (all_rows body) ! i ! 2 \<and>
         (supportedCountries (retained (all_rows body) ! i ! 2) = None \<longrightarrow>
            Region (out ! i) = [] \<and> City (out ! i) = []) \<and>
         (supportedCountries (retained (all_rows body) ! i ! 2) \<noteq> None \<longrightarrow>
            5 < length (retained (all_rows body) ! i) \<and>
            Region (out ! i) = retained (all_rows body) ! i ! 4 \<and>
            City (out ! i) = retained (all_rows body) ! i ! 5)"
proof -
  let ?v = "retained (all_rows body) ! i"
  from completed_output [OF assms(1)]
  have w: "\<forall>v \<in> set (all_rows body). wf_row v"
    and out: "out = map rangeRecord (retained (all_rows body))"
    by simp_all
  from out assms(2) have i: "i < length (retained (all_rows body))" by simp
  with out have r: "out ! i = rangeRecord ?v" by simp
  from retained_wf [OF w i] have wf: "wf_row ?v" and ns: "?v ! 2 \<noteq> ''-''" by simp_all
  have a: "Region (out ! i) = [] \<and> City (out ! i) = []" if "supportedCountries (?v ! 2) = None"
    using that r by (simp add: rangeRecord_def supported_iff)
  have b: "5 < length ?v \<and> Region (out ! i) = ?v ! 4 \<and> City (out ! i) = ?v ! 5"
    if n: "supportedCountries (?v ! 2) \<noteq> None"
  proof -
    from n have "?v ! 2 \<in> {''AU'', ''CA'', ''GB'', ''US''}" by (simp add: supported_iff)
    with r have "Region (out ! i) = ?v ! 4 \<and> City (out ! i) = ?v ! 5"
      by (simp add: rangeRecord_def)
    moreover from wf ns n have "5 < length ?v" by (simp add: wf_row_def)
    ultimately show ?thesis by simp
  qed
  from r have "CountryCode (out ! i) = ?v ! 2" by (simp add: rangeRecord_def)
  with i a b show ?thesis by blast
qed

theorem C3_witness:
  "outcome sched3 archive3 = Some (C_Return None [recFR, recUS]) \<and>
   retained (all_rows archive3) = [rowFR, rowUS] \<and>
   supportedCountries (rowFR ! 2) = None \<and> Region recFR = [] \<and> City recFR = [] \<and>
   supportedCountries (rowUS ! 2) \<noteq> None \<and> Region recUS = rowUS ! 4 \<and> City recUS = rowUS ! 5"
proof -
  have f: "supportedCountries (rowFR ! 2) = None"
    by (simp add: rowFR_def supportedCountries_def)
  have u: "supportedCountries (rowUS ! 2) \<noteq> None"
    by (simp add: rowUS_def supportedCountries_def)
  from C3_region_city_by_whitelist [OF outcome_archive3, of 0] f
  have 0: "Region recFR = [] \<and> City recFR = []"
    by (simp add: retained_archive3)
  from C3_region_city_by_whitelist [OF outcome_archive3, of 1] u
  have 1: "Region recUS = rowUS ! 4 \<and> City recUS = rowUS ! 5"
    by (simp add: retained_archive3)
  from outcome_archive3 retained_archive3 f u 0 1 show ?thesis by simp
qed

text \<open>
  Claim C4. When the archive holds one entry named \<open>target\<close> and the csv reader yields
  the rows \<open>vs\<close> of it in this order, a completed run returns the records of the rows of
  \<open>vs\<close> whose country code is not the sentinel, in the order of \<open>vs\<close>.
\<close>

theorem C4_output_order:
  assumes "fname f = target" and "fopen f = Some (map Rec vs)"
    and "\<forall>g \<in> set fs1 \<union> set fs2. fname g \<noteq> target"
    and "outcome sched (Some (fs1 @ f # fs2)) = Some (C_Return None out)"
  shows "out = map rangeRecord (filter (\<lambda>v. v ! 2 \<noteq> ''-'') vs)"
  using completed_output(3) [OF assms(4)] all_rows_one_entry [OF assms(1,2,3)]
  by (simp add: retained_def)

theorem C4_witness:
  "outcome sched3 (Some ([\<lparr>fname = ''README.TXT'', fopen = Some []\<rparr>] @
      \<lparr>fname = target, fopen = Some (map Rec [rowFR, rowNone, rowUS])\<rparr> # []))
     = Some (C_Return None [recFR, recUS]) \<and>
   [recFR, recUS] = map rangeRecord (filter (\<lambda>v. v ! 2 \<noteq> ''-'') [rowFR, rowNone, rowUS]) \<and>
   map rangeRecord (filter (\<lambda>v. v ! 2 \<noteq> ''-'') [rowFR, rowNone, rowUS]) = [rangeRecord rowFR, rangeRecord rowUS]"
proof -
  let ?f = "\<lparr>fname = target, fopen = Some (map Rec [rowFR, rowNone, rowUS])\<rparr>"
  let ?fs1 = "[\<lparr>fname = ''README.TXT'', fopen = Some []\<rparr>]"
  have o: "outcome sched3 (Some (?fs1 @ ?f # [])) = Some (C_Return None [recFR, recUS])"
    using outcome_archive3 by (simp add: archive3_def)
  have n: "\<forall>g \<in> set ?fs1 \<union> set []. fname g \<noteq> target" by (simp add: target_def)
  from C4_output_order [of ?f "[rowFR, rowNone, rowUS]" ?fs1 "[]" sched3 "[recFR, recUS]", OF _ _ n o]
  have "[recFR, recUS] = map rangeRecord (filter (\<lambda>v. v ! 2 \<noteq> ''-'') [rowFR, rowNone, rowUS])"
    by simp
  moreover have "filter (\<lambda>v. v ! 2 \<noteq> ''-'') [rowFR, rowNone, rowUS] = [rowFR, rowUS]"
    by (simp add: rowFR_def rowNone_def rowUS_def)
  ultimately show ?thesis using o by simp
qed



text \<open>
  Claim C6 as stated fails: \<open>SetString\<close> accepts a sign, so the row
  \<open>["0", "-5", "FR"]\<close> is retained with the upper bound \<open>-5\<close>.
\<close>

theorem C6_negative_upper_bound_retained:
  "outcome schedOne archiveNeg
     = Some (C_Return None [\<lparr>ToIP = - 5, CountryCode = ''FR'', Region = [], City = []\<rparr>]) \<and>
   ToIP \<lparr>ToIP = - 5, CountryCode = ''FR'', Region = [], City = []\<rparr> < 0"
  by (simp add: schedOne_def archiveNeg_def rowNeg_def run_simps)

text \<open>
  Claim C6, amended. In a completed run every row of the entry, retained or not, has an
  upper-bound field that is a decimal integer with an optional sign, and the record at
  position \<open>i\<close> carries the value \<open>SetString\<close> reads from the \<open>i\<close>-th retained row; the
  value may be negative.
\<close>

theorem C6_upper_bound_is_signed_integer:
  assumes "outcome sched body = Some (C_Return None out)"
  shows "(\<forall>v \<in> set (all_rows body). 1 < length v \<and> signed_decimal (v ! 1)) \<and>
         length out = length (retained (all_rows body)) \<and>
         (\<forall>i < length out. SetString (retained (all_rows body) ! i ! 1) = Some (ToIP (out ! i)))"
proof -
  from completed_output [OF assms]
  have w: "\<forall>v \<in> set (all_rows body). wf_row v"
    and out: "out = map rangeRecord (retained (all_rows body))"
    by simp_all
  have 1: "\<forall>v \<in> set (all_rows body). 1 < length v \<and> signed_decimal (v ! 1)"
  proof
    fix v assume "v \<in> set (all_rows body)"
    with w have "wf_row v" by blast
    then have "3 \<le> length v" and "SetString (v ! 1) \<noteq> None" by (simp_all add: wf_row_def)
    with SetString_Some_iff [of "v ! 1"] show "1 < length v \<and> signed_decimal (v ! 1)" by simp
  qed
  have 3: "\<forall>i < length out. SetString (retained (all_rows body) ! i ! 1) = Some (ToIP (out ! i))"
  proof (intro allI impI)
    fix i assume "i < length out"
    with out have i: "i < length (retained (all_rows body))" by simp
    from retained_wf(1) [OF w i] have "SetString (retained (all_rows body) ! i ! 1) \<noteq> None"
      by (simp add: wf_row_def)
    with out i show "SetString (retained (all_rows body) ! i ! 1) = Some (ToIP (out ! i))"
      by (auto simp: rangeRecord_def)
  qed
  from 1 out 3 show ?thesis by simp
qed

theorem C6_witness:
  "outcome schedOne archiveNeg
     = Some (C_Return None [\<lparr>ToIP = - 5, CountryCode = ''FR'', Region = [], City = []\<rparr>]) \<and>
   all_rows archiveNeg = [rowNeg] \<and> signed_decimal (rowNeg ! 1) \<and>
   SetString (rowNeg ! 1) = Some (- 5)"
proof -
  have o: "outcome schedOne archiveNeg
     = Some (C_Return None [\<lparr>ToIP = - 5, CountryCode = ''FR'', Region = [], City = []\<rparr>])"
    by (simp add: schedOne_def archiveNeg_def rowNeg_def run_simps)
  have r: "all_rows archiveNeg = [rowNeg]"
    by (simp add: all_rows_def archiveNeg_def target_def)
  have t: "retained (all_rows archiveNeg) = [rowNeg]"
    by (simp add: r retained_def rowNeg_def)
  from C6_upper_bound_is_signed_integer [OF o] r t
  have "signed_decimal (rowNeg ! 1)" and "SetString (rowNeg ! 1) = Some (- 5)"
    by simp_all
  with o r show ?thesis by simp
qed

text \<open>
  Claim C7, at the failing input. The entry has the one row \<open>["abc"]\<close>. Once the parser
  takes it, \<open>v[1]\<close> of line 166 is out of range: the process ends in a panic while the
  handler still waits in its \<open>select\<close>, and nothing was sent on \<open>chErr\<close>.
\<close>

theorem C7_short_row_panics:
  "parser_row [''abc''] = RPanic \<and>
   map_option (\<lambda>s. (crashed s, co s, ps s)) (exec schedShort (init archiveShort))
     = Some (True, C_Select, P_Cancelled [''abc''])"
  by (simp add: schedShort_def archiveShort_def run_simps)

text \<open>
  Claim C8 as stated fails: when \<open>zip.NewReader\<close> fails, the reader sets the token and
  closes the empty queue, and the parser, which polls the token only after receiving a
  row, leaves its loop and sets the Completion Signal.
\<close>

theorem C8_completion_after_failure:
  "map_option (\<lambda>s. (cancel_closed s, done_closed s, co s)) (exec schedZip (init None))
     = Some (True, True, C_Return (Some (prepErr ZipError)) [])"
  by (simp add: schedZip_def run_simps)

text \<open>
  Claim C8, amended. In every reachable state the Completion Signal is set exactly when
  the parser has left its loop at the end of the queue. A parser at its receive that
  finds the queue closed and empty sets the signal and ends, whether or not the token is
  set: the token is polled only after a row was received. No other step of any party
  changes the signal, and a parser that has set it moves no more, so the signal is set
  exactly once in a run in which the parser finds the queue closed and empty, and never in
  another. The parser reaches that point only with every row it received processed
  without failure, and the only panic of a run is an index out of range in the loop body.
  A parser that polls the token after receiving a row and finds it set returns without
  setting the signal.
\<close>

theorem C8_completion_signal:
  assumes "exec sched (init body) = Some s"
  shows "(done_closed s \<longleftrightarrow> ps s = P_Exit) \<and>
         (ps s = P_Exit \<longrightarrow>
            line s = [] \<and> line_closed s \<and> first_bad (seen s) = None \<and> parser s = None) \<and>
         (crashed s \<longrightarrow> (\<exists>v. ps s = P_Cancelled v \<and> parser_row v = RPanic)) \<and>
         (\<forall>v. ps s = P_Cancelled v \<and> cancel_closed s \<longrightarrow>
            \<not> done_closed s \<and> parser s = Some (s\<lparr>ps := P_Return\<rparr>)) \<and>
         (ps s = P_Return \<longrightarrow> \<not> done_closed s \<and> parser s = None) \<and>
         (ps s = P_Range \<and> line s = [] \<and> line_closed s \<longrightarrow>
            parser s = Some (s\<lparr>done_closed := True, ps := P_Exit\<rparr>)) \<and>
         (\<forall>a s'. step a s = Some s' \<and> done_closed s' \<noteq> done_closed s \<longrightarrow>
            a = Parser \<and> ps s = P_Range \<and> line s = [] \<and> line_closed s \<and> \<not> done_closed s \<and>
            s' = s\<lparr>done_closed := True, ps := P_Exit\<rparr>)"
proof -
  from reachable_inv [OF assms] have c: "inv_ctl s" and p: "parser_ok s"
    by (simp_all add: inv_def)
  from c have 1: "done_closed s \<longleftrightarrow> ps s = P_Exit" by (simp add: inv_ctl_def)
  from c p have 2: "ps s = P_Exit \<longrightarrow>
      line s = [] \<and> line_closed s \<and> first_bad (seen s) = None \<and> parser s = None"
    by (auto simp: inv_ctl_def parser_ok_def parser_def)
  from c have 3: "crashed s \<longrightarrow> (\<exists>v. ps s = P_Cancelled v \<and> parser_row v = RPanic)"
    by (simp add: inv_ctl_def)
  from 1 have 4: "\<forall>v. ps s = P_Cancelled v \<and> cancel_closed s \<longrightarrow>
      \<not> done_closed s \<and> parser s = Some (s\<lparr>ps := P_Return\<rparr>)"
    by (simp add: parser_def)
  from 1 have 5: "ps s = P_Return \<longrightarrow> \<not> done_closed s \<and> parser s = None"
    by (simp add: parser_def)
  from 1 have 6: "ps s = P_Range \<and> line s = [] \<and> line_closed s \<longrightarrow>
      parser s = Some (s\<lparr>done_closed := True, ps := P_Exit\<rparr>)"
    by (simp add: parser_def)
  have 7: "\<forall>a s'. step a s = Some s' \<and> done_closed s' \<noteq> done_closed s \<longrightarrow>
      a = Parser \<and> ps s = P_Range \<and> line s = [] \<and> line_closed s \<and> \<not> done_closed s \<and>
      s' = s\<lparr>done_closed := True, ps := P_Exit\<rparr>"
    using done_changes by blast
  from 1 2 3 4 5 6 7 show ?thesis by blast
qed

theorem C8_witness:
  "(\<exists>s. exec schedZipClosed (init None) = Some s \<and> cancel_closed s \<and>
        ps s = P_Range \<and> line s = [] \<and> line_closed s \<and>
        parser s = Some (s\<lparr>done_closed := True, ps := P_Exit\<rparr>)) \<and>
   (\<exists>s. exec schedNoTargetClosed (init archiveNoTarget) = Some s \<and> \<not> cancel_closed s \<and>
        ps s = P_Range \<and> line s = [] \<and> line_closed s \<and>
        parser s = Some (s\<lparr>done_closed := True, ps := P_Exit\<rparr>)) \<and>
   (\<exists>s. exec schedZip (init None) = Some s \<and> done_closed s \<and> ps s = P_Exit \<and>
        line s = [] \<and> line_closed s \<and> parser s = None)"
proof -
  have "\<exists>s. exec schedZipClosed (init None) = Some s \<and> cancel_closed s \<and>
        ps s = P_Range \<and> line s = [] \<and> line_closed s"
    by (simp add: schedZipClosed_def run_simps)
  then obtain s1 where e1: "exec schedZipClosed (init None) = Some s1"
    and f1: "cancel_closed s1" "ps s1 = P_Range" "line s1 = []" "line_closed s1"
    by blast
  from C8_completion_signal [OF e1] f1
  have p1: "parser s1 = Some (s1\<lparr>done_closed := True, ps := P_Exit\<rparr>)" by blast
  have "\<exists>s. exec schedNoTargetClosed (init archiveNoTarget) = Some s \<and> \<not> cancel_closed s \<and>
        ps s = P_Range \<and> line s = [] \<and> line_closed s"
    by (simp add: schedNoTargetClosed_def archiveNoTarget_def run_simps)
  then obtain s2 where e2: "exec schedNoTargetClosed (init archiveNoTarget) = Some s2"
    and f2: "\<not> cancel_closed s2" "ps s2 = P_Range" "line s2 = []" "line_closed s2"
    by blast
  from C8_completion_signal [OF e2] f2
  have p2: "parser s2 = Some (s2\<lparr>done_closed := True, ps := P_Exit\<rparr>)" by blast
  have "\<exists>s. exec schedZip (init None) = Some s \<and> done_closed s"
    by (simp add: schedZip_def run_simps)
  then obtain s3 where e3: "exec schedZip (init None) = Some s3" and d3: "done_closed s3" by blast
  from C8_completion_signal [OF e3] d3
  have p3: "ps s3 = P_Exit \<and> line s3 = [] \<and> line_closed s3 \<and> parser s3 = None" by blast
  from e1 f1 p1 e2 f2 p2 e3 d3 p3 show ?thesis by blast
qed

text \<open>
  Claim C9, at the failing input. The entry has a row whose upper bound is not a number,
  and the csv reader fails after it. Reader and parser both reach their send on \<open>chErr\<close>;
  the handler receives the reader's error and returns. In the state the schedule ends in,
  the reader has closed the token and the queue and returned, the parser still waits at
  its send of line 167, and no party can move.
\<close>

theorem C9_second_failure_blocks_forever:
  "map_option
     (\<lambda>s. (rd s, ps s, co s, cancel_closed s,
           map (\<lambda>a. step a s) [Reader, Parser, RecvReader, RecvParser, RecvDone]))
     (exec schedTwoFailures (init archiveTwoFailures))
   = Some (R_Exit, P_Abort (RecordError [''0'', ''bad'', ''US'']),
           C_Return (Some (prepErr CsvError)) [], True, [None, None, None, None, None])"
  by (simp add: schedTwoFailures_def archiveTwoFailures_def run_simps)

text \<open>
  Claim C10. A parser that holds a row whose field 2 is any string but \<open>"-"\<close>, with the
  token unset and the upper bound an integer, appends a record whose country code is that
  string as it stands, and goes on to the next row; region and city are fields 4 and 5
  exactly when the string is one of AU, CA, GB, US, and empty otherwise.
\<close>

theorem C10_country_code_not_validated:
  assumes "ps s = P_Cancelled v" and "\<not> cancel_closed s" and "2 < length v"
    and "SetString (v ! 1) = Some n" and "v ! 2 \<noteq> ''-''"
    and "v ! 2 \<in> {''AU'', ''CA'', ''GB'', ''US''} \<longrightarrow> 5 < length v"
  shows "parser s =
           Some (s\<lparr>recs := recs s @
                    [\<lparr>ToIP = n, CountryCode = v ! 2,
                      Region = (if v ! 2 \<in> {''AU'', ''CA'', ''GB'', ''US''} then v ! 4 else []),
                      City = (if v ! 2 \<in> {''AU'', ''CA'', ''GB'', ''US''} then v ! 5 else [])\<rparr>],
                  ps := P_Range\<rparr>)"
proof -
  from assms(3,4,5,6) have w: "wf_row v"
    by (auto simp: wf_row_def supported_iff)
  from parser_row_wf [OF w] assms(4,5) have "parser_row v = RAppend
      \<lparr>ToIP = n, CountryCode = v ! 2,
       Region = (if v ! 2 \<in> {''AU'', ''CA'', ''GB'', ''US''} then v ! 4 else []),
       City = (if v ! 2 \<in> {''AU'', ''CA'', ''GB'', ''US''} then v ! 5 else [])\<rparr>"
    by (simp add: rangeRecord_def)
  with assms(1,2) show ?thesis by (simp add: parser_def)
qed

theorem C10_witness:
  "parser ((init None)\<lparr>ps := P_Cancelled [''0'', ''7'', '''']\<rparr>) =
     Some ((init None)\<lparr>recs := [\<lparr>ToIP = 7, CountryCode = '''', Region = [], City = []\<rparr>],
                        ps := P_Range\<rparr>) \<and>
   parser ((init None)\<lparr>ps := P_Cancelled [''0'', ''7'', ''usa'']\<rparr>) =
     Some ((init None)\<lparr>recs := [\<lparr>ToIP = 7, CountryCode = ''usa'', Region = [], City = []\<rparr>],
                        ps := P_Range\<rparr>)"
proof -
  have n: "SetString ''7'' = Some 7" by (simp add: SetString_def mantissa_def digit_def)
  from C10_country_code_not_validated
    [of "(init None)\<lparr>ps := P_Cancelled [''0'', ''7'', '''']\<rparr>" "[''0'', ''7'', '''']" 7] n
  have 1: "parser ((init None)\<lparr>ps := P_Cancelled [''0'', ''7'', '''']\<rparr>) =
     Some ((init None)\<lparr>recs := [\<lparr>ToIP = 7, CountryCode = '''', Region = [], City = []\<rparr>],
                        ps := P_Range\<rparr>)"
    by (simp add: init_def)
  from C10_country_code_not_validated
    [of "(init None)\<lparr>ps := P_Cancelled [''0'', ''7'', ''usa'']\<rparr>" "[''0'', ''7'', ''usa'']" 7] n
  have 2: "parser ((init None)\<lparr>ps := P_Cancelled [''0'', ''7'', ''usa'']\<rparr>) =
     Some ((init None)\<lparr>recs := [\<lparr>ToIP = 7, CountryCode = ''usa'', Region = [], City = []\<rparr>],
                        ps := P_Range\<rparr>)"
    by (simp add: init_def)
  from 1 2 show ?thesis by simp
qed

end
